theory Spec2Isabelle
  imports Main "HOL-Library.Word"
begin

unbundle bit_operations_syntax

section \<open>Common types\<close>

type_synonym byte = "8 word"
type_synonym u32 = "32 word"

text \<open>
  Every way in which the two translation units can stop without a result.
  \<open>AssertionFailed\<close> is a failing \<open>BOOST_ASSERT\<close>, \<open>LengthError\<close> is
  \<open>std::length_error\<close>, \<open>InvalidArgument\<close> is \<open>std::invalid_argument\<close>,
  \<open>OutOfBounds\<close> is an access outside an array (undefined behaviour in C++, made
  explicit here).
\<close>

datatype error = AssertionFailed | LengthError | InvalidArgument | OutOfBounds

section \<open>Bounded strings\<close>

text \<open>
  Modelled from the spec: \<open>static_string<N>\<close> (boost/beast/core/static_string.hpp) is
  not among the sources. The spec calls it a bounded-capacity buffer with a compile-time
  maximum size; the model carries the capacity \<open>N\<close> next to the characters, and an
  operation that would exceed the capacity raises \<open>LengthError\<close>.
\<close>

record static_string =
  max_size :: nat
  chars :: string

text \<open>
  Modelled from the spec: an empty \<open>static_string<N>\<close>, the value of a bounded string before its
  first use.
\<close>

definition ss_empty :: "nat \<Rightarrow> static_string" where
  "ss_empty N = \<lparr>max_size = N, chars = []\<rparr>"

text \<open>
  Modelled from the spec: the constructor \<open>static_string<N> m(sv)\<close> of the bounded string, which fails when
  \<open>sv\<close> is longer than the capacity.
\<close>

definition ss_make :: "nat \<Rightarrow> string \<Rightarrow> error + static_string" where
  "ss_make N sv =
     (if length sv > N then Inl LengthError else Inr \<lparr>max_size = N, chars = sv\<rparr>)"

text \<open>
  Modelled from the spec: \<open>append(s)\<close> of the bounded string, which fails when the result would be longer
  than the capacity.
\<close>

definition append_ss :: "static_string \<Rightarrow> string \<Rightarrow> error + static_string" where
  "append_ss m s =
     (if length (chars m) + length s > max_size m then Inl LengthError
      else Inr (m\<lparr>chars := chars m @ s\<rparr>))"

text \<open>
  Modelled from the spec: \<open>resize(n)\<close> of the bounded string: it truncates, or pads with the null
  character, and fails when \<open>n\<close> exceeds the capacity.
\<close>

definition resize :: "static_string \<Rightarrow> nat \<Rightarrow> error + static_string" where
  "resize m n =
     (if n > max_size m then Inl LengthError
      else Inr (m\<lparr>chars := take n (chars m) @ replicate (n - length (chars m)) (CHR 0x00)\<rparr>))"

text \<open>
  Modelled from the spec: writing \<open>out\<close> through the pointer \<open>data()\<close> of the bounded string. The first
  characters of the string are overwritten; writing past the end of the string is out of
  bounds.
\<close>

definition write_data :: "static_string \<Rightarrow> string \<Rightarrow> error + static_string" where
  "write_data m out =
     (if length out > length (chars m) then Inl OutOfBounds
      else Inr (m\<lparr>chars := out @ drop (length out) (chars m)\<rparr>))"

section \<open>Base64\<close>

text \<open>
  Modelled from the spec: the base64 collaborator (boost/beast/core/detail/base64.hpp) is
  not among the sources. The spec asks for \<open>encode(bytes) \<rightarrow> text\<close> with the standard
  RFC 4648 alphabet and padding, and for the maximum output length for a given number of
  input bytes.
\<close>

text \<open>
  Modelled from the spec: the alphabet of RFC 4648.
\<close>

definition alphabet :: string where
  "alphabet = ''ABCDEFGHIJKLMNOPQRSTUVWXYZabcdefghijklmnopqrstuvwxyz0123456789+/''"

text \<open>
  Modelled from the spec: the look-up of a 6-bit value in the alphabet.
\<close>

definition tab :: "byte \<Rightarrow> char" where
  "tab v = alphabet ! unat v"

text \<open>
  Modelled from the spec: the length of the encoding of \<open>n\<close> bytes, padding included.
\<close>

definition encoded_size :: "nat \<Rightarrow> nat" where
  "encoded_size n = 4 * ((n + 2) div 3)"

text \<open>
  Modelled from the spec: \<open>encode\<close>, three bytes to four characters, the last group padded with
  \<open>=\<close>.
\<close>

fun encode :: "byte list \<Rightarrow> string" where
  "encode (a # b # c # rest) =
     tab (drop_bit 2 (a AND 0xfc)) #
     tab (push_bit 4 (a AND 0x03) + drop_bit 4 (b AND 0xf0)) #
     tab (drop_bit 6 (c AND 0xc0) + push_bit 2 (b AND 0x0f)) #
     tab (c AND 0x3f) # encode rest"
| "encode [a, b] =
     [tab (drop_bit 2 (a AND 0xfc)),
      tab (push_bit 4 (a AND 0x03) + drop_bit 4 (b AND 0xf0)),
      tab (push_bit 2 (b AND 0x0f)),
      CHR ''='']"
| "encode [a] =
     [tab (drop_bit 2 (a AND 0xfc)),
      tab (push_bit 4 (a AND 0x03)),
      CHR ''='', CHR ''='']"
| "encode [] = []"

section \<open>SHA-1\<close>

text \<open>
  Modelled from the spec: the SHA-1 collaborator (boost/beast/core/detail/sha1.hpp) is not
  among the sources. The spec asks for a standard SHA-1 context with
  \<open>init / update / finish\<close> producing a 20-byte digest; the model is FIPS 180-4 behind
  that interface. The context holds the number of blocks consumed, the five chaining
  words and the bytes of the current, incomplete block.
\<close>

record sha1_context =
  blocks :: nat
  digest :: "u32 list"
  buf :: "byte list"

text \<open>
  Modelled from the spec: \<open>sha1_context::digest_size\<close>, the 20 bytes of a SHA-1 digest.
\<close>

definition digest_size :: nat where
  "digest_size = 20"

text \<open>
  Modelled from the spec: rotation of a 32-bit word to the left (FIPS 180-4, ROTL).
\<close>

definition rol :: "nat \<Rightarrow> u32 \<Rightarrow> u32" where
  "rol n x = push_bit n x OR drop_bit (32 - n) x"

text \<open>
  Modelled from the spec: four bytes as a 32-bit word, most significant byte first.
\<close>

definition be32 :: "byte \<Rightarrow> byte \<Rightarrow> byte \<Rightarrow> byte \<Rightarrow> u32" where
  "be32 b0 b1 b2 b3 =
     push_bit 24 (ucast b0) OR push_bit 16 (ucast b1) OR push_bit 8 (ucast b2) OR ucast b3"

text \<open>
  Modelled from the spec: the 16 words of a 64-byte block.
\<close>

fun make_block :: "byte list \<Rightarrow> u32 list" where
  "make_block (b0 # b1 # b2 # b3 # bs) = be32 b0 b1 b2 b3 # make_block bs"
| "make_block _ = []"

text \<open>
  Modelled from the spec: the logical functions of FIPS 180-4 (Ch, Parity, Maj, Parity).
\<close>

definition sha1_f :: "nat \<Rightarrow> u32 \<Rightarrow> u32 \<Rightarrow> u32 \<Rightarrow> u32" where
  "sha1_f t b c d =
     (if t < 20 then (b AND c) OR (NOT b AND d)
      else if t < 40 then b XOR c XOR d
      else if t < 60 then (b AND c) OR (b AND d) OR (c AND d)
      else b XOR c XOR d)"

text \<open>
  Modelled from the spec: the round constants of FIPS 180-4.
\<close>

definition sha1_k :: "nat \<Rightarrow> u32" where
  "sha1_k t =
     (if t < 20 then 0x5a827999
      else if t < 40 then 0x6ed9eba1
      else if t < 60 then 0x8f1bbcdc
      else 0xca62c1d6)"

text \<open>
  Modelled from the spec: the message schedule of FIPS 180-4,
  \<open>W(t) = ROTL 1 (W(t-3) XOR W(t-8) XOR W(t-14) XOR W(t-16))\<close>,
  on the window \<open>w\<close> of the last 16 words.
\<close>

definition next_word :: "u32 list \<Rightarrow> u32" where
  "next_word w = rol 1 (w ! 13 XOR w ! 8 XOR w ! 2 XOR w ! 0)"

text \<open>
  Modelled from the spec: the 80 rounds of FIPS 180-4. \<open>w\<close> is the window of the last 16 words of
  the message schedule; its head is the word of round \<open>t\<close>.
\<close>

function rounds :: "nat \<Rightarrow> u32 list \<Rightarrow> u32 \<times> u32 \<times> u32 \<times> u32 \<times> u32 \<Rightarrow> u32 \<times> u32 \<times> u32 \<times> u32 \<times> u32" where
  "rounds t w (a, b, c, d, e) =
     (if t < 80
      then rounds (t + 1) (tl w @ [next_word w])
             (rol 5 a + sha1_f t b c d + e + hd w + sha1_k t, a, rol 30 b, c, d)
      else (a, b, c, d, e))"
  by pat_completeness auto
termination
  by (relation "measure (\<lambda>(t, w, s). 80 - t)") auto

declare rounds.simps [simp del]

text \<open>
  Modelled from the spec: the compression of one block into the five chaining words.
\<close>

definition transform :: "u32 list \<Rightarrow> u32 list \<Rightarrow> u32 list" where
  "transform h block =
     (case rounds 0 block (h ! 0, h ! 1, h ! 2, h ! 3, h ! 4) of
        (a, b, c, d, e) \<Rightarrow> [h ! 0 + a, h ! 1 + b, h ! 2 + c, h ! 3 + d, h ! 4 + e])"

text \<open>
  Modelled from the spec: \<open>init(ctx)\<close>, the initial hash value of FIPS 180-4 and an empty buffer.
\<close>

definition init :: sha1_context where
  "init = \<lparr>blocks = 0,
           digest = [0x67452301, 0xefcdab89, 0x98badcfe, 0x10325476, 0xc3d2e1f0],
           buf = []\<rparr>"

text \<open>
  Modelled from the spec: \<open>update(ctx, message, size)\<close>. The message is copied into the buffer; every
  time the buffer holds 64 bytes the block is compressed and the buffer emptied.
\<close>

function update :: "sha1_context \<Rightarrow> byte list \<Rightarrow> sha1_context" where
  "update ctx msg =
     (let n = min (length msg) (64 - length (buf ctx));
          ctx1 = ctx\<lparr>buf := buf ctx @ take n msg\<rparr>
      in if length (buf ctx1) \<noteq> 64 then ctx1
         else update
                (ctx1\<lparr>buf := [],
                       digest := transform (digest ctx1) (make_block (buf ctx1)),
                       blocks := blocks ctx1 + 1\<rparr>)
                (drop n msg))"
  by pat_completeness auto
termination
  by (relation "measure (\<lambda>(ctx, msg). 2 * length msg + (if length (buf ctx) = 64 then 1 else 0))")
     (auto split: if_splits)

declare update.simps [simp del]

text \<open>
  Modelled from the spec: the four bytes of a chaining word, most significant byte first.
\<close>

definition word_bytes :: "u32 \<Rightarrow> byte list" where
  "word_bytes x =
     [ucast (drop_bit 24 x AND 0xff), ucast (drop_bit 16 x AND 0xff),
      ucast (drop_bit 8 x AND 0xff), ucast (x AND 0xff)]"

text \<open>
  Modelled from the spec: \<open>finish(ctx, digest)\<close>. The padding of FIPS 180-4: the byte \<open>0x80\<close>, zeros, and
  the length of the message in bits as a 64-bit number in the last two words, in a second
  block when the first has no room for it.
\<close>

definition finish :: "sha1_context \<Rightarrow> byte list" where
  "finish ctx =
     (let total_bits = (of_nat ((blocks ctx * 64 + length (buf ctx)) * 8) :: 64 word);
          buflen = length (buf ctx) + 1;
          padded = buf ctx @ [0x80] @ replicate (64 - buflen) 0x00;
          block = make_block padded;
          h1 = (if buflen > 64 - 8 then transform (digest ctx) block else digest ctx);
          block1 = (if buflen > 64 - 8 then replicate 14 0 else take 14 block);
          block2 = block1 @ [ucast (drop_bit 32 total_bits), ucast (total_bits AND 0xffffffff)]
      in concat (map word_bytes (transform h1 block2)))"

section \<open>The WebSocket handshake key and accept value\<close>

text \<open>
  Modelled from the spec: \<open>sec_ws_key_type::max_size_n\<close> (boost/beast/websocket/detail/hybi13.hpp) is
  not among the sources. The spec bounds the key by the encoded length of a 16-byte value.
\<close>

definition max_size_n :: nat where
  "max_size_n = encoded_size 16"

text \<open>
  Modelled from the spec: the capacity of \<open>sec_ws_accept_type\<close> (boost/beast/websocket/detail/hybi13.hpp)
  is not among the sources. The spec makes the accept value the encoding of the 20-byte
  digest.
\<close>

definition accept_max_size_n :: nat where
  "accept_max_size_n = encoded_size 20"

text \<open>The string literal appended to the key.\<close>

definition guid :: string where
  "guid = ''258EAFA5-E914-47DA-95CA-C5AB0DC85B11''"

text \<open>The characters of a string read as bytes (\<open>char\<close> to \<open>std::uint8_t\<close>).\<close>

definition to_bytes :: "string \<Rightarrow> byte list" where
  "to_bytes s = map of_char s"

text \<open>
  \<open>make_sec_ws_accept(accept, key)\<close>. The flag \<open>asserts\<close> says whether
  \<open>BOOST_ASSERT\<close> is compiled in. The parameter \<open>accept\<close> is passed by reference; the model
  takes its value at the call and returns its value at the return.
\<close>

definition make_sec_ws_accept :: "bool \<Rightarrow> static_string \<Rightarrow> string \<Rightarrow> error + static_string" where
  "make_sec_ws_accept asserts accept key =
     (if asserts \<and> \<not> length key \<le> max_size_n then Inl AssertionFailed
      else case ss_make (max_size_n + 36) key of Inl e \<Rightarrow> Inl e | Inr m \<Rightarrow>
        (case append_ss m guid of Inl e \<Rightarrow> Inl e | Inr m \<Rightarrow>
          (let ctx = init;
               ctx = update ctx (to_bytes (chars m));
               dig = finish ctx
           in case resize accept (max_size accept) of Inl e \<Rightarrow> Inl e | Inr accept \<Rightarrow>
                (case write_data accept (encode (take digest_size dig)) of Inl e \<Rightarrow> Inl e | Inr accept \<Rightarrow>
                   resize accept (length (encode (take digest_size dig)))))))"

text \<open>
  \<open>make_sec_ws_key(key)\<close>. The generator returned by \<open>make_prng(true)\<close>
  (boost/beast/websocket/detail/prng.hpp) is not among the sources and is taken as a
  parameter: a step function \<open>g\<close> from the state of the random source to a 32-bit value
  and the next state. \<open>key_loop\<close> is the \<open>for\<close> loop that fills the array \<open>a\<close>.
\<close>

function key_loop :: "('s \<Rightarrow> u32 \<times> 's) \<Rightarrow> nat \<Rightarrow> byte list \<Rightarrow> 's \<Rightarrow> byte list \<times> 's" where
  "key_loop g i a s =
     (if i < 16
      then case g s of (v, s') \<Rightarrow>
             key_loop g (i + 4)
               (a[i := ucast (v AND 0xff),
                  i + 1 := ucast (drop_bit 8 v AND 0xff),
                  i + 2 := ucast (drop_bit 16 v AND 0xff),
                  i + 3 := ucast (drop_bit 24 v AND 0xff)])
               s'
      else (a, s))"
  by pat_completeness auto
termination
  by (relation "measure (\<lambda>(g, i, a, s). 16 - i)") auto

declare key_loop.simps [simp del]

definition make_sec_ws_key ::
    "('s \<Rightarrow> u32 \<times> 's) \<Rightarrow> 's \<Rightarrow> static_string \<Rightarrow> (error + static_string) \<times> 's" where
  "make_sec_ws_key g s key =
     (case key_loop g 0 (replicate 16 0) s of (a, s') \<Rightarrow>
        (case resize key (max_size key) of Inl e \<Rightarrow> Inl e | Inr key \<Rightarrow>
           (case write_data key (encode (take 16 a)) of Inl e \<Rightarrow> Inl e | Inr key \<Rightarrow>
              resize key (length (encode (take 16 a)))),
         s'))"

text \<open>
  The description of the key in the words of the specification: \<open>n\<close> successive calls
  of the generator, and the four bytes of a 32-bit value, least significant first.
\<close>

fun draws :: "('s \<Rightarrow> u32 \<times> 's) \<Rightarrow> nat \<Rightarrow> 's \<Rightarrow> u32 list \<times> 's" where
  "draws g 0 s = ([], s)"
| "draws g (Suc n) s =
     (case g s of (v, s') \<Rightarrow> case draws g n s' of (vs, s'') \<Rightarrow> (v # vs, s''))"

definition little_endian :: "u32 \<Rightarrow> byte list" where
  "little_endian v = [ucast v, ucast (drop_bit 8 v), ucast (drop_bit 16 v), ucast (drop_bit 24 v)]"

section \<open>Base64 decoding\<close>

text \<open>
  Modelled from the spec: the decoder of the base64 collaborator is not among the sources.
  The spec speaks of decoding a key from base64 and of the decoding succeeding; the model
  is the RFC 4648 decoder for the alphabet above. It accepts groups of four characters
  with padding in the last group only, and fails (\<open>None\<close>) on anything else.
\<close>

text \<open>
  Modelled from the spec: the position of a character in the alphabet, if it has one.
\<close>

fun find_char :: "char \<Rightarrow> string \<Rightarrow> nat \<Rightarrow> nat option" where
  "find_char ch [] i = None"
| "find_char ch (x # xs) i = (if x = ch then Some i else find_char ch xs (Suc i))"

text \<open>
  Modelled from the spec: the 6-bit value of a character of the alphabet.
\<close>

definition inverse_tab :: "char \<Rightarrow> byte option" where
  "inverse_tab ch = map_option of_nat (find_char ch alphabet 0)"

text \<open>
  Modelled from the spec: the three bytes of four 6-bit values.
\<close>

definition join3 :: "byte \<Rightarrow> byte \<Rightarrow> byte \<Rightarrow> byte \<Rightarrow> byte list" where
  "join3 v0 v1 v2 v3 =
     [push_bit 2 v0 + drop_bit 4 (v1 AND 0x30),
      push_bit 4 (v1 AND 0xf) + drop_bit 2 (v2 AND 0x3c),
      push_bit 6 (v2 AND 0x3) + v3]"

text \<open>
  Modelled from the spec: \<open>decode\<close>, four characters to three bytes, with one or two bytes from a
  last group padded with \<open>=\<close>.
\<close>

fun decode :: "string \<Rightarrow> byte list option" where
  "decode [] = Some []"
| "decode (c0 # c1 # c2 # c3 # rest) =
     (case (inverse_tab c0, inverse_tab c1) of
        (Some v0, Some v1) \<Rightarrow>
          (if rest = [] \<and> c2 = CHR ''='' \<and> c3 = CHR ''='' then Some (take 1 (join3 v0 v1 0 0))
           else case inverse_tab c2 of
             None \<Rightarrow> None
           | Some v2 \<Rightarrow>
               (if rest = [] \<and> c3 = CHR ''='' then Some (take 2 (join3 v0 v1 v2 0))
                else case inverse_tab c3 of
                  None \<Rightarrow> None
                | Some v3 \<Rightarrow> map_option ((@) (join3 v0 v1 v2 v3)) (decode rest)))
      | _ \<Rightarrow> None)"
| "decode _ = None"

section \<open>Histogram projection\<close>

text \<open>
  Modelled from the spec: the histogram class, its axes and the cell range
  \<open>indexed(h, coverage::all)\<close> (boost/histogram/histogram.hpp, indexed.hpp, axis/*.hpp) are
  not among the sources, and the spec leaves them out of scope. The model keeps what
  \<open>project\<close> uses. An axis has a number of bins and optionally an underflow bin (index
  \<open>-1\<close>) and an overflow bin (index \<open>bins\<close>). A histogram has a list of axes and a
  cell value behind every multi-index (\<open>at(idx)\<close>); the cell type is a parameter of
  the storage, with its own addition (\<open>+=\<close>) and its own default value (\<open>0\<close>). The range \<open>indexed(h, coverage::all)\<close> visits every
  multi-index of the axes once, underflow and overflow included, the first axis moving
  fastest.
\<close>

text \<open>
  Modelled from the spec: an axis of a histogram: its number of bins and whether it has an underflow
  and an overflow bin.
\<close>

record axis =
  bins :: nat
  underflow :: bool
  overflow :: bool

text \<open>
  Modelled from the spec: the indices of an axis under \<open>coverage::all\<close>, from \<open>-1\<close> when it has an
  underflow bin, up to \<open>bins\<close> when it has an overflow bin.
\<close>

definition axis_indices :: "axis \<Rightarrow> int list" where
  "axis_indices a =
     [(if underflow a then - 1 else 0) .. (if overflow a then int (bins a) else int (bins a) - 1)]"

text \<open>
  Modelled from the spec: a histogram: its axes (\<open>unsafe_access::axes\<close>) and the value of the cell at
  each multi-index (\<open>at(idx)\<close>).
\<close>

record 'a histogram =
  axes :: "axis list"
  storage :: "int list \<Rightarrow> 'a"

text \<open>
  Modelled from the spec: the multi-indices that \<open>indexed(h, coverage::all)\<close> visits, the first axis
  moving fastest.
\<close>

fun indexed :: "axis list \<Rightarrow> int list list" where
  "indexed [] = [[]]"
| "indexed (a # as) = concat (map (\<lambda>is. map (\<lambda>i. i # is) (axis_indices a)) (indexed as))"

text \<open>
  The first loop of \<open>project(h, c)\<close>: it marks the indices seen and collects the kept
  axes. \<open>seen\<close> has one flag per axis of the source; an index outside it is an access
  out of bounds.
\<close>

fun project_axes :: "axis list \<Rightarrow> bool list \<Rightarrow> nat list \<Rightarrow> axis list \<Rightarrow> error + axis list" where
  "project_axes old_axes seen [] new_axes = Inr new_axes"
| "project_axes old_axes seen (d # c) new_axes =
     (if d \<ge> length seen then Inl OutOfBounds
      else if seen ! d then Inl InvalidArgument
      else project_axes old_axes (seen[d := True]) c (new_axes @ [old_axes ! d]))"

text \<open>
  The second loop: every cell \<open>x\<close> of the source is added to the cell \<open>idx\<close> of the
  result, with the addition of the cell type.
\<close>

fun project_fill ::
    "('a::{plus,zero}) histogram \<Rightarrow> nat list \<Rightarrow> int list list \<Rightarrow> 'a histogram \<Rightarrow> 'a histogram" where
  "project_fill h c [] result = result"
| "project_fill h c (x # xs) result =
     (let idx = map (\<lambda>d. x ! d) c
      in project_fill h c xs
           (result\<lparr>storage := (storage result)(idx := storage result idx + storage h x)\<rparr>))"

text \<open>
  \<open>project(h, c)\<close>, the overload for an iterable range of indices. The result starts
  from the default storage (\<open>make_default\<close>), every cell the default value of the cell
  type.
\<close>

definition project :: "('a::{plus,zero}) histogram \<Rightarrow> nat list \<Rightarrow> error + 'a histogram" where
  "project h c =
     (case project_axes (axes h) (replicate (length (axes h)) False) c [] of
        Inl e \<Rightarrow> Inl e
      | Inr axes' \<Rightarrow>
          Inr (project_fill h c (indexed (axes h)) \<lparr>axes = axes', storage = (\<lambda>_. 0)\<rparr>))"

text \<open>
  The total content of a histogram, in the words of the claim about it: all its cells,
  underflow and overflow included, added up with the addition of the cell type in the
  order in which \<open>indexed\<close> visits them, starting from the default value.
\<close>

definition total_content :: "('a::{plus,zero}) histogram \<Rightarrow> 'a" where
  "total_content h = foldl (+) 0 (map (storage h) (indexed (axes h)))"

subsection \<open>Cells of type double\<close>

text \<open>
  One cell type that the storage template accepts is \<open>double\<close>, whose addition rounds.
  The model covers the doubles that hold an integer (IEEE 754 binary64 below \<open>2 ^ 1024\<close>
  in magnitude): a significand of 53 bits, rounding to nearest, ties to the even
  significand. \<open>double_exponent n\<close> is the number of low bits that the magnitude \<open>n\<close>
  has beyond 53 bits.
\<close>

datatype double = Double int

function double_exponent :: "nat \<Rightarrow> nat" where
  "double_exponent n = (if n < 2 ^ 53 then 0 else Suc (double_exponent (n div 2)))"
  by pat_completeness auto
termination
  by (relation "measure (\<lambda>n. n)") auto

declare double_exponent.simps [simp del]

text \<open>The double nearest to the integer \<open>x\<close>, ties to even.\<close>

definition round_double :: "int \<Rightarrow> int" where
  "round_double x =
     (let n = nat \<bar>x\<bar>;
          e = double_exponent n;
          q = n div 2 ^ e;
          r = n mod 2 ^ e;
          q' = (if 2 * r > 2 ^ e \<or> (2 * r = 2 ^ e \<and> odd q) then q + 1 else q)
      in sgn x * int (q' * 2 ^ e))"

text \<open>Addition of doubles is the exact sum, rounded; the default value is \<open>0.0\<close>.\<close>

instantiation double :: "{zero, plus}"
begin

definition zero_double :: double where
  "zero_double = Double 0"

fun plus_double :: "double \<Rightarrow> double \<Rightarrow> double" where
  "plus_double (Double a) (Double b) = Double (round_double (a + b))"

instance ..

end

section \<open>Lengths of digests and encodings\<close>

lemma length_transform: "length (transform h block) = 5"
  by (simp add: transform_def split: prod.splits)

lemma length_word_bytes: "length (word_bytes x) = 4"
  by (simp add: word_bytes_def)

lemma length_concat_word_bytes: "length (concat (map word_bytes xs)) = 4 * length xs"
  by (induction xs) (simp_all add: length_word_bytes)

lemma length_finish: "length (finish ctx) = digest_size"
  by (simp add: finish_def Let_def length_concat_word_bytes length_transform digest_size_def)

lemma encoded_size_add3: "encoded_size (Suc (Suc (Suc n))) = encoded_size n + 4"
proof -
  have "(Suc (Suc (Suc n)) + 2) div 3 = (n + 2) div 3 + 1"
    by presburger
  then show ?thesis
    by (simp add: encoded_size_def)
qed

lemma length_encode: "length (encode bs) = encoded_size (length bs)"
proof (induction bs rule: encode.induct)
  case (1 a b c rest)
  then show ?case
    by (simp add: encoded_size_add3)
qed (simp_all add: encoded_size_def)

lemma length_guid: "length guid = 36"
  by (simp add: guid_def)

section \<open>The accept value\<close>

text \<open>
  Within the length precondition no branch of \<open>make_sec_ws_accept\<close> fails, and the
  value left in \<open>accept\<close> is the encoding of the digest of the key followed by the GUID.
\<close>

lemma make_sec_ws_accept_run:
  assumes "length key \<le> max_size_n" and "max_size accept = accept_max_size_n"
  shows "make_sec_ws_accept asserts accept key =
           Inr \<lparr>max_size = accept_max_size_n,
                chars = encode (finish (update init (to_bytes (key @ guid))))\<rparr>"
proof -
  let ?dig = "finish (update init (to_bytes (key @ guid)))"
  have len: "length (encode (take digest_size ?dig)) = accept_max_size_n"
    by (simp add: length_encode length_finish accept_max_size_n_def digest_size_def)
  have tk: "take digest_size ?dig = ?dig"
    by (simp add: length_finish)
  show ?thesis
    using assms len
    by (simp add: make_sec_ws_accept_def ss_make_def append_ss_def length_guid resize_def
        write_data_def Let_def tk)
qed

section \<open>Decoding an encoding\<close>

lemma masks:
  "(0xfc::byte) = push_bit 2 (mask 6)" "(0x03::byte) = mask 2" "(0xf0::byte) = push_bit 4 (mask 4)"
  "(0x0f::byte) = mask 4" "(0xc0::byte) = push_bit 6 (mask 2)" "(0x3f::byte) = mask 6"
  "(0x30::byte) = push_bit 4 (mask 2)" "(0x3c::byte) = push_bit 2 (mask 4)"
  by (simp_all add: mask_eq_exp_minus_1)

lemma byte_eqI:
  fixes a b :: byte
  assumes "bit a 0 = bit b 0" "bit a 1 = bit b 1" "bit a 2 = bit b 2" "bit a 3 = bit b 3"
    "bit a 4 = bit b 4" "bit a 5 = bit b 5" "bit a 6 = bit b 6" "bit a 7 = bit b 7"
  shows "a = b"
proof (rule bit_word_eqI)
  fix n assume "n < LENGTH(8)"
  then have "n \<in> {0, 1, 2, 3, 4, 5, 6, 7}"
    by auto
  with assms show "bit a n = bit b n"
    by auto
qed

text \<open>The sums in the encoder and the decoder add values with no bit in common.\<close>

lemma enc_sum1:
  "push_bit 4 (a AND 0x03) + drop_bit 4 (b AND 0xf0) = push_bit 4 (a AND 0x03) OR drop_bit 4 ((b::byte) AND 0xf0)"
  unfolding masks by (rule disjunctive_add) (auto simp add: bit_simps)

lemma enc_sum2:
  "drop_bit 6 (c AND 0xc0) + push_bit 2 (b AND 0x0f) = drop_bit 6 (c AND 0xc0) OR push_bit 2 ((b::byte) AND 0x0f)"
  unfolding masks by (rule disjunctive_add) (auto simp add: bit_simps)

lemma dec_sum1:
  "push_bit 2 v0 + drop_bit 4 (v1 AND 0x30) = push_bit 2 v0 OR drop_bit 4 ((v1::byte) AND 0x30)"
  unfolding masks by (rule disjunctive_add) (auto simp add: bit_simps)

lemma dec_sum2:
  "push_bit 4 (v1 AND 0xf) + drop_bit 2 (v2 AND 0x3c) = push_bit 4 (v1 AND 0xf) OR drop_bit 2 ((v2::byte) AND 0x3c)"
  unfolding masks by (rule disjunctive_add) (auto simp add: bit_simps)

lemma dec_sum3:
  "push_bit 6 (v2 AND 0x3) + (c AND 0x3f) = push_bit 6 (v2 AND 0x3) OR ((c::byte) AND 0x3f)"
  unfolding masks by (rule disjunctive_add) (auto simp add: bit_simps)

lemma join3_full:
  "join3 (drop_bit 2 (a AND 0xfc))
         (push_bit 4 (a AND 0x03) + drop_bit 4 (b AND 0xf0))
         (drop_bit 6 (c AND 0xc0) + push_bit 2 (b AND 0x0f))
         (c AND 0x3f) = [a, b, c]"
proof -
  have b0: "push_bit 2 (drop_bit 2 (a AND 0xfc)) OR
        drop_bit 4 ((push_bit 4 (a AND 0x03) OR drop_bit 4 (b AND 0xf0)) AND 0x30) = a"
    unfolding masks by (rule byte_eqI) (simp_all add: bit_simps)
  have b1: "push_bit 4 ((push_bit 4 (a AND 0x03) OR drop_bit 4 (b AND 0xf0)) AND 0xf) OR
        drop_bit 2 ((drop_bit 6 (c AND 0xc0) OR push_bit 2 (b AND 0x0f)) AND 0x3c) = b"
    unfolding masks by (rule byte_eqI) (simp_all add: bit_simps)
  have b2: "push_bit 6 ((drop_bit 6 (c AND 0xc0) OR push_bit 2 (b AND 0x0f)) AND 0x3) OR
        (c AND 0x3f) = c"
    unfolding masks by (rule byte_eqI) (simp_all add: bit_simps)
  show ?thesis
    unfolding join3_def enc_sum1 enc_sum2 dec_sum1 dec_sum2 dec_sum3 b0 b1 b2 ..
qed

lemma join3_two:
  "take 2 (join3 (drop_bit 2 (a AND 0xfc))
         (push_bit 4 (a AND 0x03) + drop_bit 4 (b AND 0xf0))
         (push_bit 2 (b AND 0x0f)) 0) = [a, b]"
proof -
  have b0: "push_bit 2 (drop_bit 2 (a AND 0xfc)) OR
        drop_bit 4 ((push_bit 4 (a AND 0x03) OR drop_bit 4 (b AND 0xf0)) AND 0x30) = a"
    unfolding masks by (rule byte_eqI) (simp_all add: bit_simps)
  have b1: "push_bit 4 ((push_bit 4 (a AND 0x03) OR drop_bit 4 (b AND 0xf0)) AND 0xf) OR
        drop_bit 2 (push_bit 2 (b AND 0x0f) AND 0x3c) = b"
    unfolding masks by (rule byte_eqI) (simp_all add: bit_simps)
  show ?thesis
    unfolding join3_def enc_sum1 dec_sum1 dec_sum2 b0 b1
    by (simp only: take_Suc_Cons take_0 numeral_2_eq_2)
qed

lemma join3_one:
  "take 1 (join3 (drop_bit 2 (a AND 0xfc)) (push_bit 4 (a AND 0x03)) 0 0) = [a]"
proof -
  have b0: "push_bit 2 (drop_bit 2 (a AND 0xfc)) OR drop_bit 4 (push_bit 4 (a AND 0x03) AND 0x30) = a"
    unfolding masks by (rule byte_eqI) (simp_all add: bit_simps)
  show ?thesis
    unfolding join3_def dec_sum1 b0
    by (simp only: take_Suc_Cons take_0 One_nat_def)
qed

text \<open>Every value the encoder looks up in the alphabet is a sextet.\<close>

lemma sextet_lt:
  fixes x :: byte
  assumes "x AND 0x3f = x"
  shows "unat x < 64"
proof -
  from assms have "x AND mask 6 = x"
    by (simp only: masks)
  then have "uint x < 2 ^ 6"
    by (simp only: mask_eq_iff)
  then have "int (unat x) < 64"
    by simp
  then show ?thesis
    by linarith
qed

lemma sextet0: "unat (drop_bit 2 ((a::byte) AND 0xfc)) < 64"
  by (rule sextet_lt, unfold masks, rule byte_eqI) (simp_all add: bit_simps)

lemma sextet1: "unat (push_bit 4 (a AND 0x03) OR drop_bit 4 ((b::byte) AND 0xf0)) < 64"
  by (rule sextet_lt, unfold masks, rule byte_eqI) (simp_all add: bit_simps)

lemma sextet2: "unat (drop_bit 6 (c AND 0xc0) OR push_bit 2 ((b::byte) AND 0x0f)) < 64"
  by (rule sextet_lt, unfold masks, rule byte_eqI) (simp_all add: bit_simps)

lemma sextet3: "unat ((c::byte) AND 0x3f) < 64"
  by (rule sextet_lt, unfold masks, rule byte_eqI) (simp_all add: bit_simps)

lemma sextet2_last: "unat (push_bit 2 ((b::byte) AND 0x0f)) < 64"
  by (rule sextet_lt, unfold masks, rule byte_eqI) (simp_all add: bit_simps)

lemma sextet1_last: "unat (push_bit 4 ((a::byte) AND 0x03)) < 64"
  by (rule sextet_lt, unfold masks, rule byte_eqI) (simp_all add: bit_simps)

lemmas sextets = sextet0 sextet1 sextet2 sextet3 sextet2_last sextet1_last

lemma find_char_alphabet:
  "list_all (\<lambda>n. find_char (alphabet ! n) alphabet 0 = Some n) [0..<64]"
  by code_simp

lemma inverse_tab_tab:
  assumes "unat v < 64"
  shows "inverse_tab (tab v) = Some v"
proof -
  from assms find_char_alphabet have "find_char (alphabet ! unat v) alphabet 0 = Some (unat v)"
    by (simp add: list_all_iff)
  then show ?thesis
    by (simp add: inverse_tab_def tab_def)
qed

lemma inverse_tab_pad: "inverse_tab (CHR ''='') = None"
  by (simp add: inverse_tab_def alphabet_def)

lemma tab_not_pad: "unat v < 64 \<Longrightarrow> tab v \<noteq> CHR ''=''"
  using inverse_tab_tab [of v] inverse_tab_pad by auto

theorem decode_encode: "decode (encode bs) = Some bs"
proof (induction bs rule: encode.induct)
  case (1 a b c rest)
  define s0 where "s0 = drop_bit 2 (a AND 0xfc)"
  define s1 where "s1 = push_bit 4 (a AND 0x03) + drop_bit 4 (b AND 0xf0)"
  define s2 where "s2 = drop_bit 6 (c AND 0xc0) + push_bit 2 (b AND 0x0f)"
  define s3 where "s3 = c AND 0x3f"
  have enc: "encode (a # b # c # rest) = tab s0 # tab s1 # tab s2 # tab s3 # encode rest"
    by (simp only: encode.simps s0_def s1_def s2_def s3_def)
  have lt: "unat s0 < 64" "unat s1 < 64" "unat s2 < 64" "unat s3 < 64"
    unfolding s0_def s1_def s2_def s3_def enc_sum1 enc_sum2 by (rule sextets)+
  have inv: "inverse_tab (tab s0) = Some s0" "inverse_tab (tab s1) = Some s1"
    "inverse_tab (tab s2) = Some s2" "inverse_tab (tab s3) = Some s3"
    using lt by (simp_all only: inverse_tab_tab)
  have ne: "tab s2 \<noteq> CHR ''=''" "tab s3 \<noteq> CHR ''=''"
    using lt by (simp_all only: tab_not_pad not_False_eq_True)
  have j: "join3 s0 s1 s2 s3 = [a, b, c]"
    unfolding s0_def s1_def s2_def s3_def by (rule join3_full)
  have "decode (encode (a # b # c # rest)) = map_option ((@) [a, b, c]) (decode (encode rest))"
    unfolding enc decode.simps inv by (simp only: ne j prod.case option.case if_False simp_thms)
  also have "\<dots> = Some (a # b # c # rest)"
    by (simp add: "1.IH")
  finally show ?case .
next
  case (2 a b)
  define s0 where "s0 = drop_bit 2 (a AND 0xfc)"
  define s1 where "s1 = push_bit 4 (a AND 0x03) + drop_bit 4 (b AND 0xf0)"
  define s2 where "s2 = push_bit 2 (b AND 0x0f)"
  have enc: "encode [a, b] = [tab s0, tab s1, tab s2, CHR ''='']"
    by (simp only: encode.simps s0_def s1_def s2_def)
  have lt: "unat s0 < 64" "unat s1 < 64" "unat s2 < 64"
    unfolding s0_def s1_def s2_def enc_sum1 by (rule sextets)+
  have inv: "inverse_tab (tab s0) = Some s0" "inverse_tab (tab s1) = Some s1"
    "inverse_tab (tab s2) = Some s2"
    using lt by (simp_all only: inverse_tab_tab)
  have ne: "tab s2 \<noteq> CHR ''=''"
    using lt by (simp_all only: tab_not_pad not_False_eq_True)
  have j: "take 2 (join3 s0 s1 s2 0) = [a, b]"
    unfolding s0_def s1_def s2_def by (rule join3_two)
  show ?case
    unfolding enc decode.simps inv by (simp only: ne j prod.case option.case if_False if_True simp_thms)
next
  case (3 a)
  define s0 where "s0 = drop_bit 2 (a AND 0xfc)"
  define s1 where "s1 = push_bit 4 (a AND 0x03)"
  have enc: "encode [a] = [tab s0, tab s1, CHR ''='', CHR ''='']"
    by (simp only: encode.simps s0_def s1_def)
  have lt: "unat s0 < 64" "unat s1 < 64"
    unfolding s0_def s1_def by (rule sextets)+
  have inv: "inverse_tab (tab s0) = Some s0" "inverse_tab (tab s1) = Some s1"
    using lt by (simp_all only: inverse_tab_tab)
  have j: "take 1 (join3 s0 s1 0 0) = [a]"
    unfolding s0_def s1_def by (rule join3_one)
  show ?case
    unfolding enc decode.simps inv by (simp only: j prod.case option.case if_True simp_thms)
next
  case 4
  show ?case by simp
qed

section \<open>The handshake key\<close>

lemma low_byte: "(ucast ((x::u32) AND 0xff) :: byte) = ucast x"
proof -
  have m: "(0xff::u32) = mask 8"
    by (simp add: mask_eq_exp_minus_1)
  show ?thesis
    unfolding m by (rule bit_word_eqI) (auto simp add: bit_simps)
qed

lemma list_update_Cons_numeral:
  "(x # xs)[numeral v := y] = x # xs[numeral v - 1 := y]"
  by (simp add: numeral_eq_Suc)

lemma key_loop_step:
  "i < 16 \<Longrightarrow>
   key_loop g i a s =
     key_loop g (i + 4)
       (a[i := ucast (fst (g s)), i + 1 := ucast (drop_bit 8 (fst (g s))),
          i + 2 := ucast (drop_bit 16 (fst (g s))), i + 3 := ucast (drop_bit 24 (fst (g s)))])
       (snd (g s))"
  by (subst key_loop.simps) (simp only: low_byte if_True split_beta)

lemma key_loop_done: "key_loop g 16 a s = (a, s)"
  by (subst key_loop.simps) simp

lemma key_loop_eq:
  "key_loop g 0 (replicate 16 0) s =
     (concat (map little_endian (fst (draws g 4 s))), snd (draws g 4 s))"
proof -
  have r: "replicate 16 (0::byte) = [0, 0, 0, 0, 0, 0, 0, 0, 0, 0, 0, 0, 0, 0, 0, 0]"
    by (simp add: numeral_eq_Suc)
  have d: "draws g 4 s = draws g (Suc (Suc (Suc (Suc 0)))) s"
    by (simp add: numeral_eq_Suc)
  show ?thesis
    unfolding r d
    by (simp add: key_loop_step key_loop_done little_endian_def list_update_Cons_numeral
        split_beta)
qed

lemma length_draws: "length (fst (draws g n s)) = n"
  by (induction n arbitrary: s) (simp_all add: split_beta)

lemma length_concat_little_endian: "length (concat (map little_endian vs)) = 4 * length vs"
  by (induction vs) (simp_all add: little_endian_def)

lemma make_sec_ws_key_run:
  assumes "max_size key = max_size_n"
  shows "make_sec_ws_key g s key =
           (Inr \<lparr>max_size = max_size_n,
                 chars = encode (concat (map little_endian (fst (draws g 4 s))))\<rparr>,
            snd (draws g 4 s))"
proof -
  let ?a = "concat (map little_endian (fst (draws g 4 s)))"
  have la: "length ?a = 16"
    by (simp add: length_concat_little_endian length_draws)
  then have tk: "take 16 ?a = ?a"
    by simp
  have len: "length (encode ?a) = max_size_n"
    by (simp add: length_encode la max_size_n_def)
  show ?thesis
    using assms len
    by (simp add: make_sec_ws_key_def key_loop_eq tk resize_def write_data_def)
qed

section \<open>Projection\<close>

lemma project_axes_eq:
  assumes "length seen = n" and "\<forall>d\<in>set c. d < n"
  shows "project_axes old seen c acc =
           (if distinct c \<and> (\<forall>d\<in>set c. \<not> seen ! d) then Inr (acc @ map ((!) old) c)
            else Inl InvalidArgument)"
  using assms
proof (induction c arbitrary: seen acc)
  case Nil
  then show ?case by simp
next
  case (Cons d c)
  have upd: "\<And>d'. d' \<in> set c \<Longrightarrow> seen[d := True] ! d' = (d' = d \<or> seen ! d')"
    using Cons.prems by (auto simp add: nth_list_update)
  have "(\<forall>d'\<in>set c. \<not> seen[d := True] ! d') = (d \<notin> set c \<and> (\<forall>d'\<in>set c. \<not> seen ! d'))"
    using upd by auto
  moreover have "project_axes old (seen[d := True]) c (acc @ [old ! d]) =
      (if distinct c \<and> (\<forall>d'\<in>set c. \<not> seen[d := True] ! d')
       then Inr ((acc @ [old ! d]) @ map ((!) old) c) else Inl InvalidArgument)"
    using Cons.prems by (intro Cons.IH) simp_all
  ultimately show ?case
    using Cons.prems by auto
qed

lemma project_axes_start:
  assumes "\<forall>d\<in>set c. d < length old"
  shows "project_axes old (replicate (length old) False) c [] =
           (if distinct c then Inr (map ((!) old) c) else Inl InvalidArgument)"
proof -
  have "\<forall>d\<in>set c. \<not> replicate (length old) False ! d"
    using assms by simp
  then show ?thesis
    using assms project_axes_eq [of "replicate (length old) False" "length old" c old "[]"]
    by simp
qed

lemma axes_project_fill: "axes (project_fill h c xs r) = axes r"
  by (induction xs arbitrary: r) (simp_all add: Let_def)

text \<open>
  A cell of the result is its starting value with the matching cells of the source added
  to it one after the other; this needs no property of the addition.
\<close>

lemma storage_project_fill:
  "storage (project_fill h c xs r) j =
     foldl (+) (storage r j) (map (storage h) (filter (\<lambda>x. map ((!) x) c = j) xs))"
  by (induction xs arbitrary: r) (simp_all add: Let_def)

lemma foldl_plus_sum_list:
  fixes a :: "'a::monoid_add"
  shows "foldl (+) a xs = a + sum_list xs"
  by (induction xs arbitrary: a) (simp_all add: add.assoc)

lemma total_content_sum_list:
  fixes h :: "'a::monoid_add histogram"
  shows "total_content h = (\<Sum>x\<leftarrow>indexed (axes h). storage h x)"
  by (simp add: total_content_def foldl_plus_sum_list)

lemma in_indexed:
  "x \<in> set (indexed as) \<longleftrightarrow> list_all2 (\<lambda>i a. i \<in> set (axis_indices a)) x as"
  by (induction as arbitrary: x) (auto simp add: list_all2_Cons2)

lemma distinct_indexed: "distinct (indexed as)"
proof (induction as)
  case Nil
  show ?case by simp
next
  case (Cons a as)
  have "distinct (concat (map (\<lambda>is. map (\<lambda>i. i # is) (axis_indices a)) ys))"
    if "distinct ys" for ys
    using that by (induction ys) (auto simp add: distinct_map inj_on_def axis_indices_def)
  with Cons show ?case by simp
qed

lemma project_index_in_range:
  assumes "x \<in> set (indexed as)" and "\<forall>d\<in>set c. d < length as"
  shows "map ((!) x) c \<in> set (indexed (map ((!) as) c))"
  using assms by (auto simp add: in_indexed list_all2_conv_all_nth)

lemma sum_list_project:
  fixes f :: "int list \<Rightarrow> 'a::comm_monoid_add"
  assumes "\<forall>d\<in>set c. d < length as"
  shows "(\<Sum>j\<leftarrow>indexed (map ((!) as) c). \<Sum>x\<leftarrow>filter (\<lambda>x. map ((!) x) c = j) (indexed as). f x) =
         (\<Sum>x\<leftarrow>indexed as. f x)"
proof -
  let ?X = "set (indexed as)" and ?J = "set (indexed (map ((!) as) c))"
  let ?p = "\<lambda>x. map ((!) x) c"
  have inner: "(\<Sum>x\<leftarrow>filter (\<lambda>x. ?p x = j) (indexed as). f x) = sum f {x \<in> ?X. ?p x = j}" for j
    by (simp add: sum_list_distinct_conv_sum_set distinct_indexed)
  have "(\<Sum>j\<leftarrow>indexed (map ((!) as) c). sum f {x \<in> ?X. ?p x = j}) =
        (\<Sum>j\<in>?J. sum f {x \<in> ?X. ?p x = j})"
    by (simp add: sum_list_distinct_conv_sum_set distinct_indexed)
  also have "\<dots> = sum f ?X"
    using assms by (intro sum.group) (auto simp add: project_index_in_range)
  also have "\<dots> = (\<Sum>x\<leftarrow>indexed as. f x)"
    by (simp add: sum_list_distinct_conv_sum_set distinct_indexed)
  finally show ?thesis
    by (simp only: inner)
qed

lemma project_run:
  assumes "\<forall>d\<in>set c. d < length (axes h)" and "distinct c"
  shows "project h c =
           Inr (project_fill h c (indexed (axes h))
                  \<lparr>axes = map ((!) (axes h)) c, storage = (\<lambda>_. 0)\<rparr>)"
  using assms by (simp add: project_def project_axes_start)

subsection \<open>Sums of doubles\<close>

lemma double_exponent_values:
  "double_exponent 0 = 0" "double_exponent (Suc 0) = 0" "double_exponent 2 = 0"
  "double_exponent 10000000000000000 = 1" "double_exponent 10000000000000001 = 1"
  "double_exponent 10000000000000002 = 1"
  by (simp_all add: double_exponent.simps)

lemma round_double_values:
  "round_double 1 = 1"
  "round_double 2 = 2"
  "round_double 10000000000000000 = 10000000000000000"
  "round_double 10000000000000001 = 10000000000000000"
  "round_double 10000000000000002 = 10000000000000002"
  by (simp_all add: round_double_def Let_def double_exponent_values)

text \<open>Below \<open>2 ^ 53\<close> every integer is a double, and rounding changes nothing.\<close>

lemma round_double_exact: "\<bar>x\<bar> < 2 ^ 53 \<Longrightarrow> round_double x = x"
proof -
  assume "\<bar>x\<bar> < 2 ^ 53"
  then have "nat \<bar>x\<bar> < 2 ^ 53"
    by (simp add: nat_less_iff)
  then have "double_exponent (nat \<bar>x\<bar>) = 0"
    by (subst double_exponent.simps) simp
  then show ?thesis
    by (simp add: round_double_def Let_def mult_sgn_abs)
qed

section \<open>Claims about the accept value\<close>

text \<open>
  C1. For every key within the length precondition, \<open>make_sec_ws_accept\<close> returns the
  base64 encoding of the 20-byte SHA-1 digest (init, one update over the whole buffer,
  finish) of the key followed by the GUID \<open>258EAFA5-E914-47DA-95CA-C5AB0DC85B11\<close>, and
  the length of the result is the encoded length of 20 bytes.
\<close>

theorem accept_is_encoded_digest:
  assumes "length key \<le> max_size_n" and "max_size accept = accept_max_size_n"
  shows "\<exists>tok dig. make_sec_ws_accept asserts accept key = Inr tok
           \<and> dig = finish (update init (to_bytes (key @ ''258EAFA5-E914-47DA-95CA-C5AB0DC85B11'')))
           \<and> length dig = 20
           \<and> chars tok = encode dig
           \<and> length (chars tok) = encoded_size 20"
proof -
  let ?dig = "finish (update init (to_bytes (key @ guid)))"
  have "make_sec_ws_accept asserts accept key =
          Inr \<lparr>max_size = accept_max_size_n, chars = encode ?dig\<rparr>"
    using assms by (rule make_sec_ws_accept_run)
  moreover have "length ?dig = 20"
    by (simp add: length_finish digest_size_def)
  ultimately show ?thesis
    by (simp add: length_encode guid_def)
qed

theorem accept_is_encoded_digest_witness:
  "length ''dGhlIHNhbXBsZSBub25jZQ=='' \<le> max_size_n
   \<and> max_size (ss_empty accept_max_size_n) = accept_max_size_n
   \<and> (\<exists>tok dig. make_sec_ws_accept True (ss_empty accept_max_size_n) ''dGhlIHNhbXBsZSBub25jZQ=='' = Inr tok
           \<and> dig = finish (update init
                  (to_bytes (''dGhlIHNhbXBsZSBub25jZQ=='' @ ''258EAFA5-E914-47DA-95CA-C5AB0DC85B11'')))
           \<and> length dig = 20
           \<and> chars tok = encode dig
           \<and> length (chars tok) = encoded_size 20)"
proof -
  have h1: "length ''dGhlIHNhbXBsZSBub25jZQ=='' \<le> max_size_n"
    by (simp add: max_size_n_def encoded_size_def)
  have h2: "max_size (ss_empty accept_max_size_n) = accept_max_size_n"
    by (simp add: ss_empty_def)
  from accept_is_encoded_digest [OF h1 h2, of True] h1 h2 show ?thesis
    by (intro conjI)
qed

text \<open>
  C3. For every key whose length does not exceed \<open>max_size_n\<close>, whatever its characters,
  \<open>make_sec_ws_accept\<close> returns a value and no error: neither the assertion nor a bounded
  string nor a write through \<open>data()\<close> fails, and the value is derived from the digest
  of the key followed by the GUID.
\<close>

theorem accept_total_on_bounded_keys:
  assumes "length key \<le> max_size_n" and "max_size accept = accept_max_size_n"
  shows "(\<forall>e. make_sec_ws_accept asserts accept key \<noteq> Inl e)
         \<and> (\<exists>tok. make_sec_ws_accept asserts accept key = Inr tok
                \<and> chars tok = encode (finish (update init (to_bytes (key @ guid)))))"
  by (simp add: make_sec_ws_accept_run [OF assms])

theorem accept_total_on_bounded_keys_witness:
  "length ''not base64!'' \<le> max_size_n
   \<and> max_size (ss_empty accept_max_size_n) = accept_max_size_n
   \<and> decode ''not base64!'' = None
   \<and> (\<forall>e. make_sec_ws_accept True (ss_empty accept_max_size_n) ''not base64!'' \<noteq> Inl e)
   \<and> (\<exists>tok. make_sec_ws_accept True (ss_empty accept_max_size_n) ''not base64!'' = Inr tok
          \<and> chars tok = encode (finish (update init (to_bytes (''not base64!'' @ guid)))))"
proof -
  have h1: "length ''not base64!'' \<le> max_size_n"
    by (simp add: max_size_n_def encoded_size_def)
  have h2: "max_size (ss_empty accept_max_size_n) = accept_max_size_n"
    by (simp add: ss_empty_def)
  have h3: "decode ''not base64!'' = None"
    by (simp add: inverse_tab_def alphabet_def)
  from accept_total_on_bounded_keys [OF h1 h2, of True] h1 h2 h3 show ?thesis
    by (intro conjI) simp_all
qed

text \<open>
  C4, as the specification states it: a key longer than \<open>max_size_n\<close> makes the operation
  fail with \<open>InvalidArgument\<close>. The code has no such branch. At a key of 25 characters it
  stops at the assertion when assertions are compiled in, and at the length check of the
  bounded string otherwise.
\<close>

theorem oversized_key_counterexample:
  "max_size_n < length ''AAAAAAAAAAAAAAAAAAAAAAAAA''
   \<and> make_sec_ws_accept True (ss_empty accept_max_size_n) ''AAAAAAAAAAAAAAAAAAAAAAAAA''
       = Inl AssertionFailed
   \<and> make_sec_ws_accept False (ss_empty accept_max_size_n) ''AAAAAAAAAAAAAAAAAAAAAAAAA''
       = Inl LengthError
   \<and> make_sec_ws_accept True (ss_empty accept_max_size_n) ''AAAAAAAAAAAAAAAAAAAAAAAAA''
       \<noteq> Inl InvalidArgument
   \<and> make_sec_ws_accept False (ss_empty accept_max_size_n) ''AAAAAAAAAAAAAAAAAAAAAAAAA''
       \<noteq> Inl InvalidArgument"
  by (simp add: make_sec_ws_accept_def max_size_n_def encoded_size_def ss_make_def append_ss_def
      guid_def)

text \<open>
  C4, amended: for every key longer than \<open>max_size_n\<close>, \<open>make_sec_ws_accept\<close> produces no
  accept value. It fails the assertion when assertions are compiled in, and otherwise
  fails with the length error of the bounded string, before any digest is computed.
\<close>

theorem oversized_key_fails:
  assumes "max_size_n < length key"
  shows "make_sec_ws_accept asserts accept key =
           Inl (if asserts then AssertionFailed else LengthError)"
  using assms
  by (simp add: make_sec_ws_accept_def ss_make_def append_ss_def length_guid)

theorem oversized_key_fails_witness:
  "max_size_n < length ''AAAAAAAAAAAAAAAAAAAAAAAAA''
   \<and> make_sec_ws_accept False (ss_empty accept_max_size_n) ''AAAAAAAAAAAAAAAAAAAAAAAAA''
       = Inl (if False then AssertionFailed else LengthError)"
proof -
  have h: "max_size_n < length ''AAAAAAAAAAAAAAAAAAAAAAAAA''"
    by (simp add: max_size_n_def encoded_size_def)
  from oversized_key_fails [OF h, of False "ss_empty accept_max_size_n"] h show ?thesis
    by (intro conjI)
qed

text \<open>
  C7. The accept value depends on the key only: within the precondition, two calls with
  the same key return the same value, whatever \<open>accept\<close> held before each call and
  whether or not assertions are compiled in. In particular a second call on the value
  the first call left in \<open>accept\<close> returns that value again.
\<close>

theorem accept_deterministic:
  assumes "length key \<le> max_size_n"
    and "max_size accept1 = accept_max_size_n" and "max_size accept2 = accept_max_size_n"
  shows "make_sec_ws_accept asserts1 accept1 key = make_sec_ws_accept asserts2 accept2 key
         \<and> (\<exists>tok. make_sec_ws_accept asserts1 accept1 key = Inr tok
                \<and> make_sec_ws_accept asserts2 tok key = Inr tok)"
  using assms by (simp add: make_sec_ws_accept_run)

theorem accept_deterministic_witness:
  "length ''dGhlIHNhbXBsZSBub25jZQ=='' \<le> max_size_n
   \<and> max_size (ss_empty accept_max_size_n) = accept_max_size_n
   \<and> max_size \<lparr>max_size = accept_max_size_n, chars = ''left over''\<rparr> = accept_max_size_n
   \<and> make_sec_ws_accept True (ss_empty accept_max_size_n) ''dGhlIHNhbXBsZSBub25jZQ==''
       = make_sec_ws_accept False \<lparr>max_size = accept_max_size_n, chars = ''left over''\<rparr>
           ''dGhlIHNhbXBsZSBub25jZQ==''"
proof -
  have h1: "length ''dGhlIHNhbXBsZSBub25jZQ=='' \<le> max_size_n"
    by (simp add: max_size_n_def encoded_size_def)
  have h2: "max_size (ss_empty accept_max_size_n) = accept_max_size_n"
    by (simp add: ss_empty_def)
  have h3: "max_size \<lparr>max_size = accept_max_size_n, chars = ''left over''\<rparr> = accept_max_size_n"
    by simp
  from accept_deterministic [OF h1 h2 h3, of True False] h1 h2 h3 show ?thesis
    by (intro conjI) simp_all
qed

text \<open>
  C8. Within the precondition the buffer of capacity \<open>max_size_n + 36\<close> holds the key
  followed by the 36 characters of the GUID: neither the construction from the key nor
  the append exceeds the capacity, and \<open>make_sec_ws_accept\<close> never stops with the length
  error of a bounded string, whatever \<open>accept\<close> it is given.
\<close>

theorem concat_buffer_fits:
  assumes "length key \<le> max_size_n"
  shows "(\<exists>m m'. ss_make (max_size_n + 36) key = Inr m
           \<and> append_ss m guid = Inr m'
           \<and> chars m' = key @ guid
           \<and> length guid = 36
           \<and> length (chars m') \<le> max_size m')
         \<and> make_sec_ws_accept asserts accept key \<noteq> Inl LengthError"
proof -
  have fits: "\<exists>m m'. ss_make (max_size_n + 36) key = Inr m
           \<and> append_ss m guid = Inr m'
           \<and> chars m' = key @ guid
           \<and> length guid = 36
           \<and> length (chars m') \<le> max_size m'"
    using assms by (simp add: ss_make_def append_ss_def length_guid)
  have "make_sec_ws_accept asserts accept key \<noteq> Inl LengthError"
    using assms
    by (auto simp add: make_sec_ws_accept_def ss_make_def append_ss_def length_guid resize_def
        write_data_def Let_def min_def)
  with fits show ?thesis
    by (rule conjI)
qed

theorem concat_buffer_fits_witness:
  "length ''dGhlIHNhbXBsZSBub25jZQ=='' \<le> max_size_n
   \<and> (\<exists>m m'. ss_make (max_size_n + 36) ''dGhlIHNhbXBsZSBub25jZQ=='' = Inr m
           \<and> append_ss m guid = Inr m'
           \<and> chars m' = ''dGhlIHNhbXBsZSBub25jZQ=='' @ guid
           \<and> length guid = 36
           \<and> length (chars m') \<le> max_size m')
   \<and> make_sec_ws_accept True (ss_empty accept_max_size_n) ''dGhlIHNhbXBsZSBub25jZQ==''
        \<noteq> Inl LengthError"
proof -
  have h: "length ''dGhlIHNhbXBsZSBub25jZQ=='' \<le> max_size_n"
    by (simp add: max_size_n_def encoded_size_def)
  from concat_buffer_fits [OF h, of True "ss_empty accept_max_size_n"] h show ?thesis
    by (intro conjI) simp_all
qed

section \<open>The known answer of RFC 6455\<close>

lemma replicate_3: "replicate 3 x = [x, x, x]"
  by (simp add: numeral_eq_Suc)

lemma replicate_14: "replicate 14 x = [x, x, x, x, x, x, x, x, x, x, x, x, x, x]"
  by (simp add: numeral_eq_Suc)

text \<open>The two blocks of the padded message, each run through the 80 rounds.\<close>

lemma kat_block1:
  "transform [0x67452301, 0xefcdab89, 0x98badcfe, 0x10325476, 0xc3d2e1f0]
     [1682401388, 1229475432, 1649951347, 1515405941, 1647457642, 1515273533, 842348613,
      1095123253, 759511345, 875377719, 1145122105, 893600045, 1127563586, 809780024,
      893530417, 2147483648] =
   [1540323111, 1931952490, 3195796473, 1517820024, 1581688034]"
  by (simp add: transform_def rounds.simps next_word_def rol_def sha1_f_def sha1_k_def)

lemma kat_block2:
  "transform [1540323111, 1931952490, 3195796473, 1517820024, 1581688034]
     [0, 0, 0, 0, 0, 0, 0, 0, 0, 0, 0, 0, 0, 0, 0, 480] =
   [0xb37a4f2c, 0xc0624f16, 0x90f64606, 0xcf385945, 0xb2bec4ea]"
  by (simp add: transform_def rounds.simps next_word_def rol_def sha1_f_def sha1_k_def)

lemma kat_digest:
  "finish (update init (to_bytes (''dGhlIHNhbXBsZSBub25jZQ=='' @ guid))) =
     [0xb3, 0x7a, 0x4f, 0x2c, 0xc0, 0x62, 0x4f, 0x16, 0x90, 0xf6,
      0x46, 0x06, 0xcf, 0x38, 0x59, 0x45, 0xb2, 0xbe, 0xc4, 0xea]"
  by (simp add: update.simps init_def to_bytes_def guid_def Let_def finish_def be32_def
      replicate_3 replicate_14 kat_block1 kat_block2 word_bytes_def)

lemma kat_encode:
  "encode [0xb3, 0x7a, 0x4f, 0x2c, 0xc0, 0x62, 0x4f, 0x16, 0x90, 0xf6,
           0x46, 0x06, 0xcf, 0x38, 0x59, 0x45, 0xb2, 0xbe, 0xc4, 0xea] =
     ''s3pPLMBiTxaQ9kYGzzhZRbK+xOo=''"
  by (simp add: tab_def alphabet_def)

text \<open>
  C2. For the key \<open>dGhlIHNhbXBsZSBub25jZQ==\<close> of the example in RFC 6455,
  \<open>make_sec_ws_accept\<close> returns exactly \<open>s3pPLMBiTxaQ9kYGzzhZRbK+xOo=\<close>.
\<close>

theorem accept_known_answer:
  assumes "max_size accept = accept_max_size_n"
  shows "make_sec_ws_accept asserts accept ''dGhlIHNhbXBsZSBub25jZQ=='' =
           Inr \<lparr>max_size = 28, chars = ''s3pPLMBiTxaQ9kYGzzhZRbK+xOo=''\<rparr>"
proof -
  have "length ''dGhlIHNhbXBsZSBub25jZQ=='' \<le> max_size_n"
    by (simp add: max_size_n_def encoded_size_def)
  from make_sec_ws_accept_run [OF this assms, of asserts] show ?thesis
    by (simp only: kat_digest kat_encode)
       (simp add: accept_max_size_n_def encoded_size_def)
qed

theorem accept_known_answer_witness:
  "max_size (ss_empty accept_max_size_n) = accept_max_size_n
   \<and> make_sec_ws_accept True (ss_empty accept_max_size_n) ''dGhlIHNhbXBsZSBub25jZQ=='' =
        Inr \<lparr>max_size = 28, chars = ''s3pPLMBiTxaQ9kYGzzhZRbK+xOo=''\<rparr>"
proof -
  have h: "max_size (ss_empty accept_max_size_n) = accept_max_size_n"
    by (simp add: ss_empty_def)
  from accept_known_answer [OF h, of True] h show ?thesis
    by (intro conjI)
qed

section \<open>Claims about the handshake key\<close>

text \<open>
  C5. For every generator and every state of it, the key that \<open>make_sec_ws_key\<close> leaves
  in \<open>key\<close> decodes from base64: the decoding succeeds and gives 16 bytes, the encoding
  of those bytes is the key again, and the key has the 24 characters of an encoding of
  16 bytes.
\<close>

theorem key_decodes_to_16_bytes:
  assumes "max_size key = max_size_n"
  shows "\<exists>k a. fst (make_sec_ws_key g s key) = Inr k
           \<and> decode (chars k) = Some a
           \<and> length a = 16
           \<and> encode a = chars k
           \<and> length (chars k) = encoded_size 16
           \<and> encoded_size 16 = 24"
proof -
  let ?a = "concat (map little_endian (fst (draws g 4 s)))"
  have "length ?a = 16"
    by (simp add: length_concat_little_endian length_draws)
  then show ?thesis
    by (simp add: make_sec_ws_key_run [OF assms] decode_encode length_encode encoded_size_def)
qed

theorem key_decodes_to_16_bytes_witness:
  "max_size (ss_empty max_size_n) = max_size_n
   \<and> (\<exists>k a. fst (make_sec_ws_key (\<lambda>n::nat. (0x03020100 + 0x04040404 * of_nat n, Suc n)) 0
                   (ss_empty max_size_n)) = Inr k
           \<and> decode (chars k) = Some a
           \<and> length a = 16
           \<and> encode a = chars k
           \<and> length (chars k) = encoded_size 16
           \<and> encoded_size 16 = 24)"
proof -
  have h: "max_size (ss_empty max_size_n) = max_size_n"
    by (simp add: ss_empty_def)
  from key_decodes_to_16_bytes [OF h] h show ?thesis
    by (intro conjI)
qed

text \<open>
  C6. \<open>make_sec_ws_key\<close> calls the generator four times, one call after the other, takes
  the four bytes of each value least significant byte first, in the order of the calls,
  and leaves the base64 encoding of these 16 bytes in \<open>key\<close>; the random source is left
  in the state after the fourth call.
\<close>

theorem key_from_four_draws:
  assumes "max_size key = max_size_n"
  shows "make_sec_ws_key g s key =
           (Inr \<lparr>max_size = max_size_n,
                 chars = encode (concat (map little_endian (fst (draws g 4 s))))\<rparr>,
            snd (draws g 4 s))
         \<and> draws g 4 s =
             (case g s of (v0, s1) \<Rightarrow> case g s1 of (v1, s2) \<Rightarrow>
              case g s2 of (v2, s3) \<Rightarrow> case g s3 of (v3, s4) \<Rightarrow> ([v0, v1, v2, v3], s4))
         \<and> (\<forall>v. map unat (little_endian v) =
                [unat v mod 256, unat v div 256 mod 256,
                 unat v div 65536 mod 256, unat v div 16777216 mod 256])"
proof -
  have "draws g 4 s = draws g (Suc (Suc (Suc (Suc 0)))) s"
    by (simp add: numeral_eq_Suc)
  then have d: "draws g 4 s =
             (case g s of (v0, s1) \<Rightarrow> case g s1 of (v1, s2) \<Rightarrow>
              case g s2 of (v2, s3) \<Rightarrow> case g s3 of (v3, s4) \<Rightarrow> ([v0, v1, v2, v3], s4))"
    by (simp add: split_beta)
  have le: "map unat (little_endian v) =
                [unat v mod 256, unat v div 256 mod 256,
                 unat v div 65536 mod 256, unat v div 16777216 mod 256]" for v
    by (simp add: little_endian_def unsigned_ucast_eq unat_drop_bit_eq drop_bit_eq_div take_bit_eq_mod unat_div)
  from make_sec_ws_key_run [OF assms, of g s] d le show ?thesis
    by (intro conjI allI)
qed

theorem key_from_four_draws_witness:
  "max_size (ss_empty max_size_n) = max_size_n
   \<and> make_sec_ws_key (\<lambda>n::nat. (0x03020100 + 0x04040404 * of_nat n, Suc n)) 0 (ss_empty max_size_n) =
       (Inr \<lparr>max_size = 24, chars = ''AAECAwQFBgcICQoLDA0ODw==''\<rparr>, 4)"
proof -
  have h: "max_size (ss_empty max_size_n) = max_size_n"
    by (simp add: ss_empty_def)
  have d: "draws (\<lambda>n::nat. (0x03020100 + 0x04040404 * of_nat n :: u32, Suc n)) 4 0 =
             ([0x03020100, 0x07060504, 0x0b0a0908, 0x0f0e0d0c], 4)"
    by (simp add: numeral_eq_Suc)
  have e: "encode (concat (map little_endian [0x03020100, 0x07060504, 0x0b0a0908, 0x0f0e0d0c])) =
             ''AAECAwQFBgcICQoLDA0ODw==''"
    by (simp add: little_endian_def tab_def alphabet_def)
  have m: "max_size_n = 24"
    by (simp add: max_size_n_def encoded_size_def)
  from key_from_four_draws [OF h, of "\<lambda>n::nat. (0x03020100 + 0x04040404 * of_nat n, Suc n)" 0] h
  show ?thesis
    by (simp only: d e m fst_conv snd_conv simp_thms)
qed

section \<open>Claims about the projection\<close>

text \<open>
  C9. For a range \<open>c\<close> of axis indices of the histogram \<open>h\<close>, \<open>project(h, c)\<close> throws
  \<open>std::invalid_argument\<close> exactly when some index occurs more than once in \<open>c\<close>. The
  exception comes from the first loop, which only collects the axes: no result histogram
  exists at that point. Otherwise a histogram is returned. The source histogram is a
  constant argument, a value that the model never changes.
\<close>

theorem project_throws_iff_duplicate:
  assumes "\<forall>d\<in>set c. d < length (axes h)"
  shows "(project h c = Inl InvalidArgument) = (\<not> distinct c)
         \<and> (project_axes (axes h) (replicate (length (axes h)) False) c [] = Inl InvalidArgument)
             = (\<not> distinct c)
         \<and> (\<exists>r. project h c = Inr r) = distinct c"
  using assms by (simp add: project_def project_axes_start)

theorem project_throws_iff_duplicate_witness:
  "list_all (\<lambda>d. d < length (axes \<lparr>axes = [\<lparr>bins = 2, underflow = True, overflow = True\<rparr>,
                                     \<lparr>bins = 3, underflow = False, overflow = False\<rparr>],
                                   storage = (\<lambda>x. x ! 0 + 10 * x ! 1)\<rparr>)) [1, 0, 1]
   \<and> \<not> distinct [1, 0, 1::nat]
   \<and> project \<lparr>axes = [\<lparr>bins = 2, underflow = True, overflow = True\<rparr>,
                        \<lparr>bins = 3, underflow = False, overflow = False\<rparr>],
                storage = (\<lambda>x. x ! 0 + 10 * x ! 1)\<rparr> [1, 0, 1] = Inl InvalidArgument"
proof -
  let ?h = "\<lparr>axes = [\<lparr>bins = 2, underflow = True, overflow = True\<rparr>,
                        \<lparr>bins = 3, underflow = False, overflow = False\<rparr>],
                storage = (\<lambda>x. x ! 0 + 10 * x ! 1 :: int)\<rparr>"
  have h: "\<forall>d\<in>set [1, 0, 1]. d < length (axes ?h)"
    by simp
  have n: "\<not> distinct [1, 0, 1::nat]"
    by simp
  have h': "list_all (\<lambda>d. d < length (axes ?h)) [1, 0, 1]"
    by simp
  from project_throws_iff_duplicate [OF h] h' n show ?thesis
    by (intro conjI) simp_all
qed

text \<open>
  C10, as the claim states it: for every histogram the total content of the result of
  \<open>project\<close> equals the total content of the source. With cells of type \<open>double\<close> it
  does not: for the four cells \<open>1e16, 1, 1, 1\<close> on two axes of two bins and the second
  axis kept, the cells of the result are \<open>1e16\<close> and \<open>2\<close>, with total
  \<open>1e16 + 2\<close>, and the total of the source is \<open>1e16\<close>.
\<close>

theorem project_total_double_counterexample:
  "list_all (\<lambda>d. d < length (axes \<lparr>axes = [\<lparr>bins = 2, underflow = False, overflow = False\<rparr>,
                                     \<lparr>bins = 2, underflow = False, overflow = False\<rparr>],
                                   storage = (\<lambda>x. if x = [0, 0] then Double 10000000000000000
                                                  else Double 1)\<rparr>)) [1]
   \<and> distinct [1::nat]
   \<and> map (storage \<lparr>axes = [\<lparr>bins = 2, underflow = False, overflow = False\<rparr>,
                            \<lparr>bins = 2, underflow = False, overflow = False\<rparr>],
                    storage = (\<lambda>x. if x = [0, 0] then Double 10000000000000000 else Double 1)\<rparr>)
       (indexed [\<lparr>bins = 2, underflow = False, overflow = False\<rparr>,
                 \<lparr>bins = 2, underflow = False, overflow = False\<rparr>])
       = [Double 10000000000000000, Double 1, Double 1, Double 1]
   \<and> map_sum id total_content
         (project \<lparr>axes = [\<lparr>bins = 2, underflow = False, overflow = False\<rparr>,
                           \<lparr>bins = 2, underflow = False, overflow = False\<rparr>],
                   storage = (\<lambda>x. if x = [0, 0] then Double 10000000000000000 else Double 1)\<rparr>
            [1])
       = Inr (Double 10000000000000002)
   \<and> total_content \<lparr>axes = [\<lparr>bins = 2, underflow = False, overflow = False\<rparr>,
                             \<lparr>bins = 2, underflow = False, overflow = False\<rparr>],
                     storage = (\<lambda>x. if x = [0, 0] then Double 10000000000000000 else Double 1)\<rparr>
       = Double 10000000000000000
   \<and> map_sum id total_content
         (project \<lparr>axes = [\<lparr>bins = 2, underflow = False, overflow = False\<rparr>,
                           \<lparr>bins = 2, underflow = False, overflow = False\<rparr>],
                   storage = (\<lambda>x. if x = [0, 0] then Double 10000000000000000 else Double 1)\<rparr>
            [1])
       \<noteq> Inr (total_content
                \<lparr>axes = [\<lparr>bins = 2, underflow = False, overflow = False\<rparr>,
                         \<lparr>bins = 2, underflow = False, overflow = False\<rparr>],
                 storage = (\<lambda>x. if x = [0, 0] then Double 10000000000000000 else Double 1)\<rparr>)"
  by (simp add: project_def total_content_def axis_indices_def upto.simps zero_double_def
      round_double_values)

text \<open>
  C10, amended. For every histogram and every range \<open>c\<close> of distinct axis indices of
  it, \<open>project\<close> returns a histogram over the kept axes, in the order of \<open>c\<close>, and each
  of its cells is the default value with the source cells, underflow and overflow
  included, whose indices on the kept axes are the indices of the cell, added to it one
  after the other in the order of \<open>indexed\<close>. When the addition of the cell type is exact
  (associative and commutative, the default value neutral), each cell is the sum of those
  source cells, and the total content of the result is the total content of the source.
\<close>

theorem project_sums_removed_axes:
  fixes h :: "'a::{plus,zero} histogram" and g :: "'b::comm_monoid_add histogram"
  assumes "\<forall>d\<in>set c. d < length (axes h)" and "\<forall>d\<in>set c. d < length (axes g)"
    and "distinct c"
  shows "(\<exists>r. project h c = Inr r
            \<and> axes r = map ((!) (axes h)) c
            \<and> (\<forall>j. storage r j =
                   foldl (+) 0 (map (storage h)
                     (filter (\<lambda>x. map ((!) x) c = j) (indexed (axes h))))))
         \<and> (\<exists>r. project g c = Inr r
            \<and> axes r = map ((!) (axes g)) c
            \<and> (\<forall>j. storage r j =
                   (\<Sum>x\<leftarrow>filter (\<lambda>x. map ((!) x) c = j) (indexed (axes g)). storage g x))
            \<and> total_content r = total_content g
            \<and> total_content g = (\<Sum>x\<leftarrow>indexed (axes g). storage g x))"
proof -
  let ?rh = "project_fill h c (indexed (axes h))
               \<lparr>axes = map ((!) (axes h)) c, storage = (\<lambda>_. 0)\<rparr>"
  let ?rg = "project_fill g c (indexed (axes g))
               \<lparr>axes = map ((!) (axes g)) c, storage = (\<lambda>_. 0)\<rparr>"
  have runh: "project h c = Inr ?rh"
    using assms(1,3) by (rule project_run)
  have axh: "axes ?rh = map ((!) (axes h)) c"
    by (simp add: axes_project_fill)
  have cellh: "storage ?rh j =
      foldl (+) 0 (map (storage h) (filter (\<lambda>x. map ((!) x) c = j) (indexed (axes h))))" for j
    by (simp add: storage_project_fill)
  have rung: "project g c = Inr ?rg"
    using assms(2,3) by (rule project_run)
  have axg: "axes ?rg = map ((!) (axes g)) c"
    by (simp add: axes_project_fill)
  have cellg: "storage ?rg j =
      (\<Sum>x\<leftarrow>filter (\<lambda>x. map ((!) x) c = j) (indexed (axes g)). storage g x)" for j
    by (simp add: storage_project_fill foldl_plus_sum_list)
  have "total_content ?rg =
        (\<Sum>j\<leftarrow>indexed (map ((!) (axes g)) c).
           \<Sum>x\<leftarrow>filter (\<lambda>x. map ((!) x) c = j) (indexed (axes g)). storage g x)"
    by (simp only: total_content_sum_list axg cellg)
  also have "\<dots> = (\<Sum>x\<leftarrow>indexed (axes g). storage g x)"
    using assms(2) by (rule sum_list_project)
  finally have total: "total_content ?rg = total_content g"
    by (simp only: total_content_sum_list)
  have first: "\<exists>r. project h c = Inr r
            \<and> axes r = map ((!) (axes h)) c
            \<and> (\<forall>j. storage r j =
                   foldl (+) 0 (map (storage h)
                     (filter (\<lambda>x. map ((!) x) c = j) (indexed (axes h)))))"
    using runh axh cellh by (intro exI [of _ ?rh] conjI allI)
  have second: "\<exists>r. project g c = Inr r
            \<and> axes r = map ((!) (axes g)) c
            \<and> (\<forall>j. storage r j =
                   (\<Sum>x\<leftarrow>filter (\<lambda>x. map ((!) x) c = j) (indexed (axes g)). storage g x))
            \<and> total_content r = total_content g
            \<and> total_content g = (\<Sum>x\<leftarrow>indexed (axes g). storage g x)"
    using rung axg cellg total total_content_sum_list [of g]
    by (intro exI [of _ ?rg] conjI allI)
  from first second show ?thesis
    by (rule conjI)
qed

theorem project_sums_removed_axes_witness:
  "list_all (\<lambda>d. d < length (axes \<lparr>axes = [\<lparr>bins = 2, underflow = False, overflow = False\<rparr>,
                                     \<lparr>bins = 2, underflow = False, overflow = False\<rparr>],
                                   storage = (\<lambda>x. if x = [0, 0] then Double 10000000000000000
                                                  else Double 1)\<rparr>)) [1]
   \<and> list_all (\<lambda>d. d < length (axes \<lparr>axes = [\<lparr>bins = 2, underflow = True, overflow = True\<rparr>,
                                     \<lparr>bins = 3, underflow = False, overflow = False\<rparr>],
                                   storage = (\<lambda>x. x ! 0 + 10 * x ! 1)\<rparr>)) [1]
   \<and> distinct [1::nat]
   \<and> (\<exists>r. project \<lparr>axes = [\<lparr>bins = 2, underflow = False, overflow = False\<rparr>,
                             \<lparr>bins = 2, underflow = False, overflow = False\<rparr>],
                     storage = (\<lambda>x. if x = [0, 0] then Double 10000000000000000
                                    else Double 1)\<rparr> [1] = Inr r
          \<and> axes r = [\<lparr>bins = 2, underflow = False, overflow = False\<rparr>]
          \<and> map (storage r) (indexed (axes r)) = [Double 10000000000000000, Double 2])
   \<and> (\<exists>r. project \<lparr>axes = [\<lparr>bins = 2, underflow = True, overflow = True\<rparr>,
                             \<lparr>bins = 3, underflow = False, overflow = False\<rparr>],
                     storage = (\<lambda>x. x ! 0 + 10 * x ! 1)\<rparr> [1] = Inr r
          \<and> axes r = [\<lparr>bins = 3, underflow = False, overflow = False\<rparr>]
          \<and> map (storage r) (indexed (axes r)) = [2, 42, 82]
          \<and> total_content r = (126::int))"
proof -
  let ?h = "\<lparr>axes = [\<lparr>bins = 2, underflow = False, overflow = False\<rparr>,
                        \<lparr>bins = 2, underflow = False, overflow = False\<rparr>],
                storage = (\<lambda>x. if x = [0, 0] then Double 10000000000000000 else Double 1)\<rparr>"
  let ?g = "\<lparr>axes = [\<lparr>bins = 2, underflow = True, overflow = True\<rparr>,
                        \<lparr>bins = 3, underflow = False, overflow = False\<rparr>],
                storage = (\<lambda>x. x ! 0 + 10 * x ! 1 :: int)\<rparr>"
  have hh: "\<forall>d\<in>set [1]. d < length (axes ?h)"
    by simp
  have hg: "\<forall>d\<in>set [1]. d < length (axes ?g)"
    by simp
  have d: "distinct [1::nat]"
    by simp
  have ixh: "indexed (axes ?h) = [[0, 0], [1, 0], [0, 1], [1, 1]]"
    by (simp add: axis_indices_def upto.simps)
  have ixg: "indexed (axes ?g) =
      [[-1, 0], [0, 0], [1, 0], [2, 0], [-1, 1], [0, 1], [1, 1], [2, 1],
       [-1, 2], [0, 2], [1, 2], [2, 2]]"
    by (simp add: axis_indices_def upto.simps)
  have ir2: "indexed [\<lparr>bins = 2, underflow = False, overflow = False\<rparr>] = [[0], [1]]"
    by (simp add: axis_indices_def upto.simps)
  have ir3: "indexed [\<lparr>bins = 3, underflow = False, overflow = False\<rparr>] = [[0], [1], [2]]"
    by (simp add: axis_indices_def upto.simps)
  note both = project_sums_removed_axes [OF hh hg d]
  from both obtain rh where rh: "project ?h [1] = Inr rh"
    "axes rh = map ((!) (axes ?h)) [1]"
    "\<And>j. storage rh j =
       foldl (+) 0 (map (storage ?h) (filter (\<lambda>x. map ((!) x) [1] = j) (indexed (axes ?h))))"
    by blast
  from both obtain rg where rg: "project ?g [1] = Inr rg"
    "axes rg = map ((!) (axes ?g)) [1]"
    "\<And>j. storage rg j =
       (\<Sum>x\<leftarrow>filter (\<lambda>x. map ((!) x) [1] = j) (indexed (axes ?g)). storage ?g x)"
    "total_content rg = total_content ?g"
    "total_content ?g = (\<Sum>x\<leftarrow>indexed (axes ?g). storage ?g x)"
    by blast
  have arh: "axes rh = [\<lparr>bins = 2, underflow = False, overflow = False\<rparr>]"
    using rh(2) by simp
  have arg: "axes rg = [\<lparr>bins = 3, underflow = False, overflow = False\<rparr>]"
    using rg(2) by simp
  note cellh = rh(3) [unfolded ixh]
  have cellsh: "map (storage rh) (indexed (axes rh)) = [Double 10000000000000000, Double 2]"
    unfolding arh ir2
    by (simp add: cellh zero_double_def round_double_values)
  note cellg = rg(3) [unfolded ixg]
  have cellsg: "map (storage rg) (indexed (axes rg)) = [2, 42, 82]"
    unfolding arg ir3 by (simp add: cellg)
  have totalg: "total_content rg = 126"
    unfolding rg(4) rg(5) [unfolded ixg] by simp
  have hh': "list_all (\<lambda>d. d < length (axes ?h)) [1]"
    by simp
  have hg': "list_all (\<lambda>d. d < length (axes ?g)) [1]"
    by simp
  have first: "\<exists>r. project ?h [1] = Inr r
          \<and> axes r = [\<lparr>bins = 2, underflow = False, overflow = False\<rparr>]
          \<and> map (storage r) (indexed (axes r)) = [Double 10000000000000000, Double 2]"
    using rh(1) arh cellsh by (intro exI [of _ rh] conjI)
  have second: "\<exists>r. project ?g [1] = Inr r
          \<and> axes r = [\<lparr>bins = 3, underflow = False, overflow = False\<rparr>]
          \<and> map (storage r) (indexed (axes r)) = [2, 42, 82]
          \<and> total_content r = (126::int)"
    using rg(1) arg cellsg totalg by (intro exI [of _ rg] conjI)
  from hh' hg' d first second show ?thesis
    by (intro conjI)
qed

end
